theory Spec2Isabelle
  imports Complex_Main "HOL-Library.Word"
begin

section \<open>The wheel of names: script.js as state-passing functions\<close>

text \<open>
  The script keeps three module-level variables (\<open>names\<close>, \<open>rotation\<close>,
  \<open>spinning\<close>) and a handful of page elements. Every function of the script that reads or
  writes them becomes a function on a record of that state. What the browser supplies
  (the three results of \<open>Math.random()\<close>, the value of \<open>performance.now()\<close>, the
  timestamp handed to an animation frame) is a parameter of the function that consumes it.

  JavaScript numbers are modelled as \<open>real\<close>: all arithmetic is exact. Drawing on the canvas
  (\<open>drawWheel\<close>, \<open>wrapText\<close>) writes pixels only and is left out; it reads \<open>names\<close> and
  its argument and changes none of the variables below.
\<close>

subsection \<open>Strings\<close>

text \<open>
  A JavaScript string is a sequence of 16-bit code units. \<open>js\<close> turns an ASCII literal
  into one.
\<close>

type_synonym jsstring = "16 word list"

definition js :: "string \<Rightarrow> jsstring" where
  "js s = map (\<lambda>c. of_nat (of_char c)) s"

text \<open>The em dash U+2014 used by the result text.\<close>

definition emDash :: jsstring where
  "emDash = [0x2014]"

text \<open>
  \<open>String.prototype.trim\<close> strips the code units of ECMAScript's WhiteSpace and
  LineTerminator productions from both ends.
\<close>

definition isWhiteSpace :: "16 word \<Rightarrow> bool" where
  "isWhiteSpace c = (c \<in> set [0x9, 0xA, 0xB, 0xC, 0xD, 0x20, 0xA0, 0x1680,
     0x2000, 0x2001, 0x2002, 0x2003, 0x2004, 0x2005, 0x2006, 0x2007, 0x2008, 0x2009, 0x200A,
     0x2028, 0x2029, 0x202F, 0x205F, 0x3000, 0xFEFF])"

definition trim :: "jsstring \<Rightarrow> jsstring" where
  "trim s = rev (dropWhile isWhiteSpace (rev (dropWhile isWhiteSpace s)))"

text \<open>
  \<open>s.split(',')\<close>: the pieces between the separators, in order; the empty string
  gives one empty piece. \<open>cur\<close> holds the current piece, reversed.
\<close>

fun splitAcc :: "16 word \<Rightarrow> jsstring \<Rightarrow> jsstring \<Rightarrow> jsstring list" where
  "splitAcc sep cur [] = [rev cur]"
| "splitAcc sep cur (c # cs) =
     (if c = sep then rev cur # splitAcc sep [] cs else splitAcc sep (c # cur) cs)"

definition splitComma :: "jsstring \<Rightarrow> jsstring list" where
  "splitComma s = splitAcc 0x2C [] s"

text \<open>\<open>xs.join(', ')\<close>.\<close>

fun joinCommaSpace :: "jsstring list \<Rightarrow> jsstring" where
  "joinCommaSpace [] = []"
| "joinCommaSpace [x] = x"
| "joinCommaSpace (x # y # ys) = x @ [0x2C, 0x20] @ joinCommaSpace (y # ys)"

text \<open>
  \<open>raw.split(',').map(s => s.trim()).filter(Boolean)\<close>: a string is truthy exactly when
  it is not empty.
\<close>

definition parseNames :: "jsstring \<Rightarrow> jsstring list" where
  "parseNames raw = filter (\<lambda>s. s \<noteq> []) (map trim (splitComma raw))"

definition defaultNames :: "jsstring list" where
  "defaultNames = map js [''Alice'', ''Bob'', ''Charlie'', ''Diana'', ''Eve'', ''Frank'',
     ''Grace'', ''Heidi'']"

subsection \<open>Numbers\<close>

text \<open>
  The \<open>%\<close> operator on finite numbers with a non-zero divisor: the remainder of the
  division truncated toward zero, so the result has the sign of the dividend. The script
  only ever divides by 360.
\<close>

definition truncR :: "real \<Rightarrow> int" where
  "truncR x = (if 0 \<le> x then \<lfloor>x\<rfloor> else - \<lfloor>- x\<rfloor>)"

definition jsRem :: "real \<Rightarrow> real \<Rightarrow> real" where
  "jsRem a b = a - b * of_int (truncR (a / b))"

definition easeOutCubic :: "real \<Rightarrow> real" where
  "easeOutCubic t = 1 - (1 - t) ^ 3"

subsection \<open>State\<close>

text \<open>
  The closure \<open>animate\<close> created by one call of \<open>spin\<close> captures these constants.
\<close>

record session =
  targetIndex :: int
  start :: real
  duration :: real
  startRotation :: real
  endRotation :: real

text \<open>
  \<open>pending\<close> is the callback registered with \<open>requestAnimationFrame\<close> and not yet
  run. \<open>spinSoundPlaying\<close> and \<open>winSoundPlays\<close> record the calls on the two audio
  elements.
\<close>

record state =
  names :: "jsstring list"
  rotation :: real
  spinning :: bool
  spinBtnDisabled :: bool
  updateBtnDisabled :: bool
  resultText :: jsstring
  namesInput :: jsstring
  spinSoundPlaying :: bool
  winSoundPlays :: nat
  pending :: "session option"

text \<open>
  The state once the script has run to its end. The text the page initially shows in the
  result element comes from the HTML, which the script does not set: it is a parameter.
\<close>

definition initState :: "jsstring \<Rightarrow> state" where
  "initState txt =
     \<lparr> names = defaultNames, rotation = 0, spinning = False,
       spinBtnDisabled = False, updateBtnDisabled = False,
       resultText = txt, namesInput = joinCommaSpace defaultNames,
       spinSoundPlaying = False, winSoundPlays = 0, pending = None \<rparr>"

subsection \<open>Finishing a spin\<close>

text \<open>
  The index expression of \<open>finishSpin\<close>. With no names, \<open>360 / segCount\<close> is
  \<open>Infinity\<close> and the quotient is 0.
\<close>

definition resolveIndex :: "real \<Rightarrow> nat \<Rightarrow> int" where
  "resolveIndex rot segCount =
     (let normalizedRotation = jsRem rot 360;
          pointerAngle = 270
      in if segCount = 0 then 0
         else \<lfloor>jsRem (360 + pointerAngle - normalizedRotation) 360 / (360 / real segCount)\<rfloor>)"

text \<open>\<open>names[index]\<close>: \<open>None\<close> stands for \<open>undefined\<close>.\<close>

definition nameAt :: "jsstring list \<Rightarrow> int \<Rightarrow> jsstring option" where
  "nameAt ns i = (if 0 \<le> i \<and> i < int (length ns) then Some (ns ! nat i) else None)"

text \<open>\<open>names[index] || dash\<close>: \<open>undefined\<close> and the empty string are falsy.\<close>

definition winnerAt :: "jsstring list \<Rightarrow> int \<Rightarrow> jsstring" where
  "winnerAt ns i =
     (case nameAt ns i of
        None \<Rightarrow> emDash
      | Some n \<Rightarrow> if n = [] then emDash else n)"

definition finishSpin :: "int \<Rightarrow> state \<Rightarrow> state" where
  "finishSpin winIndex s =
     (let segCount = length (names s);
          index = resolveIndex (rotation s) segCount;
          winner = winnerAt (names s) index
      in s\<lparr> spinning := False, spinBtnDisabled := False, updateBtnDisabled := False,
            spinSoundPlaying := False,
            resultText := js ''Winner: '' @ winner,
            winSoundPlays := Suc (winSoundPlays s) \<rparr>)"

subsection \<open>Spinning\<close>

definition anglePer :: "nat \<Rightarrow> real" where
  "anglePer segCount = 360 / real segCount"

definition targetMidAngle :: "nat \<Rightarrow> int \<Rightarrow> real" where
  "targetMidAngle segCount ti = (of_int ti * anglePer segCount) + (anglePer segCount / 2) - 90"

definition finalRotation :: "nat \<Rightarrow> int \<Rightarrow> int \<Rightarrow> real" where
  "finalRotation segCount ti fullRot = of_int fullRot * 360 + targetMidAngle segCount ti"

text \<open>
  One run of the callback \<open>animate\<close> with timestamp \<open>now\<close>: it either registers itself
  again or finishes the spin.
\<close>

definition animate :: "session \<Rightarrow> real \<Rightarrow> state \<Rightarrow> state" where
  "animate ss now s =
     (let elapsed = now - start ss;
          t = min 1 (elapsed / duration ss);
          eased = easeOutCubic t;
          s1 = s\<lparr> rotation := startRotation ss + (endRotation ss - startRotation ss) * eased \<rparr>
      in if t < 1 then s1\<lparr> pending := Some ss \<rparr>
         else finishSpin (targetIndex ss) s1)"

text \<open>
  The body of \<open>spin\<close> after the guard, with the random choices already made:
  \<open>ti\<close> is \<open>targetIndex\<close>, \<open>now\<close> the value of \<open>performance.now()\<close>.
\<close>

definition startSpin :: "int \<Rightarrow> int \<Rightarrow> real \<Rightarrow> real \<Rightarrow> state \<Rightarrow> state" where
  "startSpin ti fullRot dur now s =
     (let segCount = length (names s);
          ss = \<lparr> targetIndex = ti, start = now, duration = dur,
                 startRotation = jsRem (rotation s) 360,
                 endRotation = rotation s + finalRotation segCount ti fullRot \<rparr>
      in s\<lparr> spinning := True, spinBtnDisabled := True, updateBtnDisabled := True,
            resultText := js ''Spinning...'', spinSoundPlaying := True,
            pending := Some ss \<rparr>)"

text \<open>
  \<open>spin\<close>: \<open>u1\<close>, \<open>u2\<close>, \<open>u3\<close> are the results of the three calls of
  \<open>Math.random()\<close>, in the order of the source.
\<close>

definition spin :: "real \<Rightarrow> real \<Rightarrow> real \<Rightarrow> real \<Rightarrow> state \<Rightarrow> state" where
  "spin u1 u2 u3 now s =
     (if spinning s \<or> length (names s) = 0 then s
      else startSpin \<lfloor>u1 * real (length (names s))\<rfloor> (4 + \<lfloor>u2 * 3\<rfloor>)
             (4200 + of_int \<lfloor>u3 * 1200\<rfloor>) now s)"

subsection \<open>The update button's handler\<close>

definition updateHandler :: "state \<Rightarrow> state" where
  "updateHandler s =
     (let raw = trim (namesInput s)
      in if raw = [] then s
         else (let arr = parseNames raw
               in s\<lparr> names := (if length arr \<noteq> 0 then arr else defaultNames),
                     resultText := js ''Winner: '' @ emDash,
                     rotation := 0 \<rparr>))"

subsection \<open>Events\<close>

text \<open>
  What can happen on the page: a click on either button (a disabled button delivers no
  click), the space key, typing into the names field, and the browser running the
  registered animation callback.
\<close>

datatype event =
    SpinClick real real real real
  | SpaceKey real real real real
  | UpdateClick
  | TypeNames jsstring
  | Frame real

fun step :: "event \<Rightarrow> state \<Rightarrow> state" where
  "step (SpinClick u1 u2 u3 now) s = (if spinBtnDisabled s then s else spin u1 u2 u3 now s)"
| "step (SpaceKey u1 u2 u3 now) s = spin u1 u2 u3 now s"
| "step UpdateClick s = (if updateBtnDisabled s then s else updateHandler s)"
| "step (TypeNames v) s = s\<lparr> namesInput := v \<rparr>"
| "step (Frame now) s =
     (case pending s of
        None \<Rightarrow> s
      | Some ss \<Rightarrow> animate ss now (s\<lparr> pending := None \<rparr>))"

definition run :: "jsstring \<Rightarrow> event list \<Rightarrow> state" where
  "run txt es = foldl (\<lambda>s e. step e s) (initState txt) es"

text \<open>An event whose random numbers are in the range of \<open>Math.random()\<close>.\<close>

fun unitInterval :: "real \<Rightarrow> bool" where
  "unitInterval u = (0 \<le> u \<and> u < 1)"

fun validEvent :: "event \<Rightarrow> bool" where
  "validEvent (SpinClick u1 u2 u3 now) = (unitInterval u1 \<and> unitInterval u2 \<and> unitInterval u3)"
| "validEvent (SpaceKey u1 u2 u3 now) = (unitInterval u1 \<and> unitInterval u2 \<and> unitInterval u3)"
| "validEvent e = True"

text \<open>An event other than a click on the update button.\<close>

fun noUpdate :: "event \<Rightarrow> bool" where
  "noUpdate UpdateClick = False"
| "noUpdate e = True"

text \<open>Running a list of animation frames, given by their timestamps.\<close>

definition frames :: "real list \<Rightarrow> state \<Rightarrow> state" where
  "frames ts s = foldl (\<lambda>s a. step (Frame a) s) s ts"

subsection \<open>Invariants of the reachable states\<close>

text \<open>
  The names list is never empty and holds no empty string; both buttons are disabled
  exactly while a spin runs, and exactly then an animation callback is registered.
\<close>

definition wellFormed :: "state \<Rightarrow> bool" where
  "wellFormed s =
     (names s \<noteq> [] \<and> list_all (\<lambda>n. n \<noteq> []) (names s)
      \<and> spinBtnDisabled s = spinning s
      \<and> updateBtnDisabled s = spinning s
      \<and> (pending s \<noteq> None) = spinning s)"

text \<open>
  Between spins the rotation is not negative, and a running spin ends at a rotation that
  is not negative.
\<close>

definition restsNonneg :: "state \<Rightarrow> bool" where
  "restsNonneg s =
     (case pending s of
        None \<Rightarrow> 0 \<le> rotation s
      | Some ss \<Rightarrow> 0 \<le> endRotation ss)"

text \<open>
  Measured from a rotation \<open>r0\<close> and a count \<open>w0\<close> of finished spins
  (\<open>finishSpin\<close> alone plays the win sound): every spin finished since has added more
  than 1350 degrees, and a running spin will have done so when it ends.
\<close>

definition restGrows :: "real \<Rightarrow> nat \<Rightarrow> state \<Rightarrow> bool" where
  "restGrows r0 w0 s =
     (case pending s of
        None \<Rightarrow> r0 + 1350 * (real (winSoundPlays s) - real w0) \<le> rotation s
      | Some ss \<Rightarrow> r0 + 1350 * (real (winSoundPlays s) + 1 - real w0) \<le> endRotation ss)"

section \<open>Supporting lemmas\<close>

subsection \<open>Evaluation\<close>

text \<open>
  Unfolding these equations evaluates the functions on concrete inputs.
\<close>

lemmas number_defs = jsRem_def truncR_def easeOutCubic_def anglePer_def targetMidAngle_def
  finalRotation_def resolveIndex_def

lemmas string_defs = js_def emDash_def isWhiteSpace_def trim_def splitComma_def parseNames_def
  defaultNames_def

lemmas machine_defs = run_def frames_def initState_def spin_def startSpin_def animate_def
  finishSpin_def updateHandler_def winnerAt_def nameAt_def Let_def

subsection \<open>The remainder and the index expression\<close>

text \<open>
  The remainder by 360 differs from its argument by a multiple of 360 and, for an argument
  that is not negative, lies in the half-open interval from 0 to 360. The index expression
  therefore reads the angle \<open>270 - rot\<close> reduced into that interval. For the rotation
  that \<open>spin\<close> builds from rotation 0 and target \<open>ti\<close> this angle is
  \<open>360 - (ti + 1/2) * anglePer\<close>, which lies in slice \<open>n - 1 - ti\<close>.
\<close>

lemma jsRem_360_nonneg:
  assumes "0 \<le> a"
  shows "0 \<le> jsRem a 360" and "jsRem a 360 < 360"
proof -
  have eq: "jsRem a 360 = a - 360 * of_int \<lfloor>a / 360\<rfloor>"
    using assms by (simp add: jsRem_def truncR_def)
  have "of_int \<lfloor>a / 360\<rfloor> \<le> a / 360" "a / 360 < of_int \<lfloor>a / 360\<rfloor> + 1"
    by linarith+
  then show "0 \<le> jsRem a 360" "jsRem a 360 < 360"
    unfolding eq by (simp_all add: field_simps)
qed

lemma jsRem_360_upper: "jsRem a 360 < 360"
proof (cases "0 \<le> a")
  case True
  then show ?thesis by (rule jsRem_360_nonneg)
next
  case False
  define q where "q = - (a / 360)"
  from False have eq: "jsRem a 360 = a + 360 * of_int \<lfloor>q\<rfloor>"
    by (simp add: jsRem_def truncR_def q_def)
  have "of_int \<lfloor>q\<rfloor> \<le> q" by linarith
  moreover have "360 * q = - a" by (simp add: q_def)
  ultimately show ?thesis unfolding eq using False by linarith
qed

lemma jsRem_360_le: "0 \<le> a \<Longrightarrow> jsRem a 360 \<le> a"
proof -
  assume a: "0 \<le> a"
  then have "0 \<le> \<lfloor>a / 360\<rfloor>" by simp
  then have "0 \<le> (of_int \<lfloor>a / 360\<rfloor> :: real)" by simp
  then show ?thesis using a by (simp add: jsRem_def truncR_def)
qed

lemma jsRem_360_shift: "\<exists>k::int. jsRem a 360 = a - 360 * of_int k"
  unfolding jsRem_def by blast

lemma pointer_offset:
  "\<exists>j::int. jsRem (360 + 270 - jsRem rot 360) 360 = 270 - rot + 360 * of_int j"
proof -
  obtain k :: int where k: "jsRem rot 360 = rot - 360 * of_int k"
    using jsRem_360_shift by blast
  obtain l :: int where l: "jsRem (360 + 270 - jsRem rot 360) 360
      = (360 + 270 - jsRem rot 360) - 360 * of_int l"
    using jsRem_360_shift by blast
  have "jsRem (360 + 270 - jsRem rot 360) 360 = 270 - rot + 360 * of_int (1 + k - l)"
    unfolding l unfolding k by simp
  then show ?thesis by blast
qed

lemma pointer_offset_range:
  "0 \<le> jsRem (360 + 270 - jsRem rot 360) 360"
  "jsRem (360 + 270 - jsRem rot 360) 360 < 360"
proof -
  have "0 \<le> 360 + 270 - jsRem rot 360"
    using jsRem_360_upper [of rot] by simp
  then show "0 \<le> jsRem (360 + 270 - jsRem rot 360) 360"
    "jsRem (360 + 270 - jsRem rot 360) 360 < 360"
    by (rule jsRem_360_nonneg)+
qed

lemma resolveIndex_range:
  assumes "0 < n"
  shows "0 \<le> resolveIndex rot n" and "resolveIndex rot n < int n"
proof -
  let ?x = "jsRem (360 + 270 - jsRem rot 360) 360"
  have n: "0 < real n" using assms by simp
  have q0: "0 \<le> ?x / (360 / real n)"
    using pointer_offset_range(1) [of rot] n by simp
  have "?x * real n < 360 * real n"
    using pointer_offset_range(2) [of rot] n by simp
  then have q1: "?x / (360 / real n) < real n"
    using n by (simp add: field_simps)
  have r: "resolveIndex rot n = \<lfloor>?x / (360 / real n)\<rfloor>"
    using assms by (simp add: resolveIndex_def)
  show "0 \<le> resolveIndex rot n" unfolding r using q0 by simp
  show "resolveIndex rot n < int n" unfolding r using q1 by (simp add: floor_less_iff)
qed

lemma resolveIndex_mirror:
  assumes n: "0 < n" and t0: "0 \<le> ti" and t1: "ti < int n"
  shows "resolveIndex (0 + finalRotation n ti fullRot) n = int n - 1 - ti"
proof -
  let ?rot = "0 + finalRotation n ti fullRot"
  define x where "x = jsRem (360 + 270 - jsRem ?rot 360) 360"
  have rn: "0 < real n" using n by simp
  obtain j :: int where j: "x = 270 - ?rot + 360 * of_int j"
    unfolding x_def using pointer_offset by blast
  define m where "m = j + 1 - fullRot"
  have q: "x / (360 / real n) = real n * of_int m - of_int ti - 1 / 2"
    unfolding j m_def finalRotation_def targetMidAngle_def anglePer_def
    using rn by (simp add: field_simps)
  have q0: "0 \<le> x / (360 / real n)"
    unfolding x_def using pointer_offset_range(1) [of ?rot] rn by simp
  have "x * real n < 360 * real n"
    unfolding x_def using pointer_offset_range(2) [of ?rot] rn by simp
  then have q1: "x / (360 / real n) < real n"
    using rn by (simp add: field_simps)
  have tr0: "0 \<le> (of_int ti :: real)"
    using t0 by simp
  from t1 have "ti \<le> int n - 1" by simp
  then have "(of_int ti :: real) \<le> of_int (int n - 1)"
    by (simp only: of_int_le_iff)
  then have tr1: "(of_int ti :: real) \<le> real n - 1"
    by simp
  note tr = tr0 tr1
  have "0 < real n * of_int m" using q q0 tr by linarith
  then have m0: "0 < m" using rn by (simp add: zero_less_mult_iff)
  have "real n * of_int m < real n * 2" using q q1 tr by linarith
  then have "(of_int m :: real) < 2" using rn by simp
  then have m1: "m < 2" by linarith
  have m: "m = 1" using m0 m1 by simp
  have "x / (360 / real n) = of_int (int n - 1 - ti) + 1 / 2"
    unfolding q m by simp
  then have "\<lfloor>x / (360 / real n)\<rfloor> = int n - 1 - ti"
    by (simp add: floor_eq_iff)
  then show ?thesis using n unfolding x_def by (simp add: resolveIndex_def)
qed

lemma finalRotation_lower:
  assumes "0 < n" "0 \<le> ti" "4 \<le> fullRot"
  shows "1350 < finalRotation n ti fullRot"
proof -
  have a: "0 < anglePer n" using assms(1) by (simp add: anglePer_def)
  have "0 \<le> of_int ti * anglePer n" using a assms(2) by simp
  moreover have "(4::real) \<le> of_int fullRot" using assms(3) by simp
  ultimately show ?thesis using a by (simp add: finalRotation_def targetMidAngle_def)
qed

lemma random_index_nonneg: "unitInterval u \<Longrightarrow> 0 \<le> \<lfloor>u * real n\<rfloor>"
  by simp

lemma random_turns_lower: "unitInterval u \<Longrightarrow> 4 \<le> 4 + \<lfloor>u * 3\<rfloor>"
  by simp

lemma random_duration_lower: "unitInterval u \<Longrightarrow> (4200::real) \<le> 4200 + of_int \<lfloor>u * 1200\<rfloor>"
  by simp

subsection \<open>Names and strings\<close>

text \<open>
  Trimming leaves nothing exactly when every code unit is white space; a string of white
  space and commas parses to no entry.
\<close>

lemma defaultNames_nonempty: "defaultNames \<noteq> []"
  by (simp add: defaultNames_def)

lemma defaultNames_entries: "list_all (\<lambda>n. n \<noteq> []) defaultNames"
  by (simp add: defaultNames_def js_def)

lemma parseNames_entries: "list_all (\<lambda>n. n \<noteq> []) (parseNames raw)"
  by (simp add: parseNames_def list_all_iff)

lemma updateHandler_names:
  "names (updateHandler s) =
     (if trim (namesInput s) = [] then names s
      else if parseNames (trim (namesInput s)) = [] then defaultNames
      else parseNames (trim (namesInput s)))"
  by (simp add: updateHandler_def Let_def)

lemma trim_empty_iff: "trim v = [] \<longleftrightarrow> list_all isWhiteSpace v"
proof
  assume "list_all isWhiteSpace v"
  then have e: "dropWhile isWhiteSpace v = []" by (simp add: list_all_iff)
  show "trim v = []" unfolding trim_def e by simp
next
  assume "trim v = []"
  then have all: "\<forall>c \<in> set (dropWhile isWhiteSpace v). isWhiteSpace c"
    by (simp add: trim_def dropWhile_eq_Nil_conv)
  have "dropWhile isWhiteSpace v = []"
  proof (rule ccontr)
    assume ne: "dropWhile isWhiteSpace v \<noteq> []"
    then have "\<not> isWhiteSpace (hd (dropWhile isWhiteSpace v))" by (rule hd_dropWhile)
    moreover have "hd (dropWhile isWhiteSpace v) \<in> set (dropWhile isWhiteSpace v)"
      using ne by (rule hd_in_set)
    ultimately show False using all by blast
  qed
  then show "list_all isWhiteSpace v" by (simp add: dropWhile_eq_Nil_conv list_all_iff)
qed

lemma set_trim: "set (trim v) \<subseteq> set v"
proof -
  have "set (trim v) \<subseteq> set (dropWhile isWhiteSpace v)"
    unfolding trim_def using set_dropWhileD by fastforce
  also have "\<dots> \<subseteq> set v" using set_dropWhileD by fastforce
  finally show ?thesis .
qed

lemma splitAcc_blank:
  "list_all isWhiteSpace cur \<Longrightarrow> list_all (\<lambda>c. isWhiteSpace c \<or> c = sep) v
   \<Longrightarrow> list_all (list_all isWhiteSpace) (splitAcc sep cur v)"
  by (induction v arbitrary: cur) auto

lemma parseNames_blank:
  assumes "list_all (\<lambda>c. isWhiteSpace c \<or> c = 0x2C) v"
  shows "parseNames v = []"
proof -
  have "list_all (list_all isWhiteSpace) (splitComma v)"
    unfolding splitComma_def using assms by (intro splitAcc_blank) simp_all
  then have "list_all (\<lambda>p. trim p = []) (splitComma v)"
    by (simp add: trim_empty_iff)
  then show ?thesis
    by (simp add: parseNames_def list_all_iff filter_empty_conv)
qed

lemma parseNames_trim_blank:
  assumes "list_all (\<lambda>c. isWhiteSpace c \<or> c = 0x2C) v"
  shows "parseNames (trim v) = []"
proof -
  have "list_all (\<lambda>c. isWhiteSpace c \<or> c = 0x2C) (trim v)"
    using assms set_trim [of v] by (auto simp: list_all_iff)
  then show ?thesis by (rule parseNames_blank)
qed

lemma winnerAt_in_range:
  assumes "0 \<le> i" "i < int (length ns)" "list_all (\<lambda>n. n \<noteq> []) ns"
  shows "winnerAt ns i = ns ! nat i"
proof -
  have "nat i < length ns" using assms(1,2) by simp
  then have "ns ! nat i \<in> set ns" by simp
  then have "ns ! nat i \<noteq> []" using assms(3) by (simp add: list_all_iff)
  then show ?thesis using assms(1,2) by (simp add: winnerAt_def nameAt_def)
qed

subsection \<open>The animation callback\<close>

text \<open>
  What one run of \<open>animate\<close> leaves in the state.
\<close>

lemma easeOutCubic_mono: "a \<le> b \<Longrightarrow> easeOutCubic a \<le> easeOutCubic b"
proof -
  assume ab: "a \<le> b"
  have "(1 - b) ^ 3 \<le> (1 - a) ^ 3"
    by (rule power_mono_odd) (use ab in simp_all)
  then show ?thesis by (simp add: easeOutCubic_def)
qed

lemma animate_rotation:
  "rotation (animate ss now s) =
     startRotation ss + (endRotation ss - startRotation ss)
       * easeOutCubic (min 1 ((now - start ss) / duration ss))"
  by (simp add: animate_def finishSpin_def Let_def)

lemma animate_pending:
  "pending (animate ss now s) =
     (if (now - start ss) / duration ss < 1 then Some ss else pending s)"
  by (simp add: animate_def finishSpin_def Let_def)

lemma animate_spinning:
  "spinning (animate ss now s) =
     (if (now - start ss) / duration ss < 1 then spinning s else False)"
  by (simp add: animate_def finishSpin_def Let_def)

lemma animate_rotation_end:
  "\<not> (now - start ss) / duration ss < 1 \<Longrightarrow> rotation (animate ss now s) = endRotation ss"
  by (simp add: animate_rotation easeOutCubic_def min_def)

lemma rotation_at_mono:
  assumes "a \<le> b" "0 < d" "r0 \<le> r1"
  shows "r0 + (r1 - r0) * easeOutCubic (min 1 ((a - st) / d))
       \<le> r0 + (r1 - r0) * easeOutCubic (min 1 ((b - st) / d))"
proof -
  have "(a - st) / d \<le> (b - st) / d"
    using assms(1,2) by (simp add: divide_right_mono)
  then have "min 1 ((a - st) / d) \<le> min 1 ((b - st) / d)"
    by simp
  then have "easeOutCubic (min 1 ((a - st) / d)) \<le> easeOutCubic (min 1 ((b - st) / d))"
    by (rule easeOutCubic_mono)
  then show ?thesis
    using assms(3) by (simp add: mult_left_mono)
qed

lemma spin_accepted:
  "\<not> spinning s \<Longrightarrow> names s \<noteq> [] \<Longrightarrow>
   spin u1 u2 u3 now s = startSpin \<lfloor>u1 * real (length (names s))\<rfloor> (4 + \<lfloor>u2 * 3\<rfloor>)
             (4200 + of_int \<lfloor>u3 * 1200\<rfloor>) now s"
  by (simp add: spin_def)

subsection \<open>Preservation of the invariants\<close>

text \<open>
  Every event keeps \<open>wellFormed\<close>; events with random numbers in range keep
  \<open>restsNonneg\<close>.
\<close>

lemma updateHandler_wellFormed: "wellFormed s \<Longrightarrow> wellFormed (updateHandler s)"
  unfolding wellFormed_def updateHandler_names
  using defaultNames_nonempty defaultNames_entries parseNames_entries
  by (simp add: updateHandler_def Let_def)

lemma finishSpin_wellFormed:
  "names s \<noteq> [] \<Longrightarrow> list_all (\<lambda>n. n \<noteq> []) (names s) \<Longrightarrow> pending s = None
   \<Longrightarrow> wellFormed (finishSpin w s)"
  by (simp add: wellFormed_def finishSpin_def Let_def)

lemma animate_wellFormed:
  "names s \<noteq> [] \<Longrightarrow> list_all (\<lambda>n. n \<noteq> []) (names s) \<Longrightarrow> pending s = None
   \<Longrightarrow> spinning s \<Longrightarrow> spinBtnDisabled s \<Longrightarrow> updateBtnDisabled s
   \<Longrightarrow> wellFormed (animate ss now s)"
  by (simp add: wellFormed_def animate_def finishSpin_def Let_def)

lemma spin_wellFormed: "wellFormed s \<Longrightarrow> wellFormed (spin u1 u2 u3 now s)"
  by (simp add: wellFormed_def spin_def startSpin_def Let_def)

lemma step_wellFormed: "wellFormed s \<Longrightarrow> wellFormed (step e s)"
proof (cases e)
  case (Frame now)
  assume wf: "wellFormed s"
  show ?thesis
  proof (cases "pending s")
    case None
    then show ?thesis using wf Frame by simp
  next
    case (Some ss)
    have "wellFormed (animate ss now (s\<lparr>pending := None\<rparr>))"
      using wf Some by (intro animate_wellFormed) (auto simp: wellFormed_def)
    then show ?thesis using Frame Some by simp
  qed
qed (simp_all add: spin_wellFormed updateHandler_wellFormed, simp add: wellFormed_def)

lemma initState_wellFormed: "wellFormed (initState txt)"
  using defaultNames_nonempty defaultNames_entries
  by (simp add: wellFormed_def initState_def)

lemma foldl_step_wellFormed:
  "wellFormed s \<Longrightarrow> wellFormed (foldl (\<lambda>s e. step e s) s es)"
  by (induction es arbitrary: s) (simp_all add: step_wellFormed)

lemma run_wellFormed: "wellFormed (run txt es)"
  unfolding run_def by (rule foldl_step_wellFormed) (rule initState_wellFormed)

lemma run_names_nonempty: "names (run t0 es) \<noteq> []"
  using run_wellFormed [of t0 es] by (simp add: wellFormed_def)

lemma run_names_entries: "list_all (\<lambda>n. n \<noteq> []) (names (run t0 es))"
  using run_wellFormed [of t0 es] by (simp add: wellFormed_def)

lemma spin_restsNonneg:
  assumes "restsNonneg s" "wellFormed s" "unitInterval u1" "unitInterval u2"
  shows "restsNonneg (spin u1 u2 u3 now s)"
proof (cases "spinning s")
  case True
  then show ?thesis using assms(1) by (simp add: spin_def)
next
  case False
  then have p: "pending s = None" and n: "0 < length (names s)"
    using assms(2) by (simp_all add: wellFormed_def)
  have r: "0 \<le> rotation s" using assms(1) p by (simp add: restsNonneg_def)
  have "1350 < finalRotation (length (names s)) \<lfloor>u1 * real (length (names s))\<rfloor> (4 + \<lfloor>u2 * 3\<rfloor>)"
    using n assms(3,4) by (intro finalRotation_lower) simp_all
  then show ?thesis using False n r
    by (simp add: spin_def startSpin_def restsNonneg_def Let_def)
qed

lemma frame_restsNonneg: "restsNonneg s \<Longrightarrow> restsNonneg (step (Frame now) s)"
proof (cases "pending s")
  case None
  assume "restsNonneg s"
  then show ?thesis using None by simp
next
  case (Some ss)
  assume "restsNonneg s"
  then have e: "0 \<le> endRotation ss" using Some by (simp add: restsNonneg_def)
  show ?thesis
  proof (cases "(now - start ss) / duration ss < 1")
    case True
    then show ?thesis using Some e by (simp add: restsNonneg_def animate_pending)
  next
    case False
    then show ?thesis using Some e
      by (simp add: restsNonneg_def animate_pending animate_rotation_end)
  qed
qed

lemma updateHandler_restsNonneg: "restsNonneg s \<Longrightarrow> restsNonneg (updateHandler s)"
  by (simp add: restsNonneg_def updateHandler_def Let_def split: option.splits)

lemma step_restsNonneg:
  "restsNonneg s \<Longrightarrow> wellFormed s \<Longrightarrow> validEvent e \<Longrightarrow> restsNonneg (step e s)"
proof (cases e)
  case (Frame now)
  assume "restsNonneg s"
  then show ?thesis unfolding Frame by (rule frame_restsNonneg)
next
  case (TypeNames v)
  assume "restsNonneg s"
  then show ?thesis using TypeNames by (simp add: restsNonneg_def split: option.splits)
qed (simp_all add: spin_restsNonneg updateHandler_restsNonneg del: unitInterval.simps)

lemma foldl_step_restsNonneg:
  "restsNonneg s \<Longrightarrow> wellFormed s \<Longrightarrow> list_all validEvent es
   \<Longrightarrow> restsNonneg (foldl (\<lambda>s e. step e s) s es)"
  by (induction es arbitrary: s) (simp_all add: step_restsNonneg step_wellFormed)

lemma run_restsNonneg: "list_all validEvent es \<Longrightarrow> restsNonneg (run txt es)"
  unfolding run_def
  by (rule foldl_step_restsNonneg)
     (simp_all add: initState_wellFormed, simp add: restsNonneg_def initState_def)

lemma run_idle_rotation:
  assumes "list_all validEvent es" "\<not> spinning (run txt es)"
  shows "0 \<le> rotation (run txt es)"
proof -
  have "pending (run txt es) = None"
    using run_wellFormed [of "txt" es] assms(2) by (simp add: wellFormed_def)
  then show ?thesis using run_restsNonneg [OF assms(1), of "txt"] by (simp add: restsNonneg_def)
qed

lemma frames_snoc: "frames (ts @ [a]) s = step (Frame a) (frames ts s)"
  by (simp add: frames_def)

lemma frames_wellFormed: "wellFormed s \<Longrightarrow> wellFormed (frames ts s)"
proof (induction ts rule: rev_induct)
  case Nil
  then show ?case by (simp add: frames_def)
next
  case (snoc a ts)
  then show ?case unfolding frames_snoc by (intro step_wellFormed)
qed

lemma frames_pending:
  "pending s = Some ss \<Longrightarrow> pending (frames ts s) = Some ss \<or> pending (frames ts s) = None"
proof (induction ts rule: rev_induct)
  case Nil
  then show ?case by (simp add: frames_def)
next
  case (snoc a ts)
  show ?case
  proof (cases "pending (frames ts s)")
    case None
    then show ?thesis by (simp add: frames_snoc)
  next
    case (Some ss')
    then have "pending (frames ts s) = Some ss" using snoc by simp
    then show ?thesis by (simp add: frames_snoc animate_pending)
  qed
qed

lemma two_frames_mono:
  assumes p: "pending x = Some ss \<or> pending x = None"
    and ab: "a \<le> b" and d: "0 < duration ss" and r: "startRotation ss \<le> endRotation ss"
  shows "rotation (step (Frame a) x) \<le> rotation (step (Frame b) (step (Frame a) x))"
proof (cases "pending x")
  case None
  then show ?thesis by simp
next
  case (Some ss')
  then have x: "pending x = Some ss" using p by simp
  define y where "y = step (Frame a) x"
  have y: "y = animate ss a (x\<lparr>pending := None\<rparr>)"
    unfolding y_def using x by simp
  show ?thesis
  proof (cases "(a - start ss) / duration ss < 1")
    case True
    then have "pending y = Some ss" unfolding y by (simp add: animate_pending)
    then have "step (Frame b) y = animate ss b (y\<lparr>pending := None\<rparr>)" by simp
    then have "rotation (step (Frame b) y)
        = startRotation ss + (endRotation ss - startRotation ss)
            * easeOutCubic (min 1 ((b - start ss) / duration ss))"
      by (simp only: animate_rotation)
    moreover have "rotation y
        = startRotation ss + (endRotation ss - startRotation ss)
            * easeOutCubic (min 1 ((a - start ss) / duration ss))"
      unfolding y by (simp only: animate_rotation)
    ultimately show ?thesis
      unfolding y_def [symmetric] using rotation_at_mono [OF ab d r] by simp
  next
    case False
    then have "pending y = None" unfolding y by (simp add: animate_pending)
    then have "step (Frame b) y = y" by simp
    then show ?thesis unfolding y_def [symmetric] by simp
  qed
qed

subsection \<open>Rotation from spin to spin\<close>

text \<open>
  A spin adds more than 1350 and less than 2430 degrees. A frame that comes within 100
  milliseconds of the request has eased less than a fourteenth of the way.
\<close>

lemma finalRotation_upper:
  assumes n: "0 < n" and ti: "ti < int n" and fr: "fullRot \<le> 6"
  shows "finalRotation n ti fullRot < 2430"
proof -
  have rn: "0 < real n" using n by simp
  have a: "0 < anglePer n" using n by (simp add: anglePer_def)
  from ti have "ti \<le> int n - 1" by simp
  then have "(of_int ti :: real) \<le> of_int (int n - 1)" by (simp only: of_int_le_iff)
  then have t: "(of_int ti :: real) \<le> real n - 1" by simp
  have "of_int ti * anglePer n \<le> (real n - 1) * anglePer n"
    using t a by (simp add: mult_right_mono)
  also have "\<dots> = 360 - anglePer n"
    using rn by (simp add: anglePer_def field_simps)
  finally have m: "of_int ti * anglePer n \<le> 360 - anglePer n" .
  have f: "(of_int fullRot :: real) \<le> 6" using fr by simp
  show ?thesis
    using m a f by (simp add: finalRotation_def targetMidAngle_def)
qed

lemma random_index_upper: "unitInterval u \<Longrightarrow> 0 < n \<Longrightarrow> \<lfloor>u * real n\<rfloor> < int n"
proof -
  assume u: "unitInterval u" and n: "0 < n"
  then have "u * real n < real n" by simp
  then show ?thesis by (simp add: floor_less_iff)
qed

lemma random_turns_upper: "unitInterval u \<Longrightarrow> 4 + \<lfloor>u * 3\<rfloor> \<le> 6"
proof -
  assume "unitInterval u"
  then have "u * 3 < 3" by simp
  then have "\<lfloor>u * 3\<rfloor> < 3" by (simp add: floor_less_iff)
  then show ?thesis by simp
qed

lemma ease_early:
  assumes e: "e \<le> 100" and d: "4200 \<le> d"
  shows "easeOutCubic (min 1 (e / d)) < 1 / 14"
proof -
  have dp: "0 < d" using d by simp
  have "e * 42 \<le> d" using e d by simp
  then have "e / d \<le> 1 / 42"
    using dp by (simp add: field_simps)
  moreover have "min 1 (e / d) \<le> e / d" by simp
  ultimately have "min 1 (e / d) \<le> 1 / 42" by (rule order_trans [rotated])
  then have "easeOutCubic (min 1 (e / d)) \<le> easeOutCubic (1 / 42)"
    by (rule easeOutCubic_mono)
  also have "easeOutCubic (1 / 42) < 1 / 14"
    by (simp add: easeOutCubic_def power3_eq_cube)
  finally show ?thesis .
qed

lemma animate_winSoundPlays:
  "winSoundPlays (animate ss now s) =
     (if (now - start ss) / duration ss < 1 then winSoundPlays s else Suc (winSoundPlays s))"
  by (simp add: animate_def finishSpin_def Let_def)

lemma spin_restGrows:
  assumes g: "restGrows r0 w0 s" and wf: "wellFormed s"
    and u1: "unitInterval u1" and u2: "unitInterval u2"
  shows "restGrows r0 w0 (spin u1 u2 u3 now s)"
proof (cases "spinning s")
  case True
  then show ?thesis using g by (simp add: spin_def)
next
  case False
  then have p: "pending s = None" and n: "0 < length (names s)"
    using wf by (simp_all add: wellFormed_def)
  have r: "r0 + 1350 * (real (winSoundPlays s) - real w0) \<le> rotation s"
    using g p by (simp add: restGrows_def)
  have "1350 < finalRotation (length (names s)) \<lfloor>u1 * real (length (names s))\<rfloor> (4 + \<lfloor>u2 * 3\<rfloor>)"
    using n u1 u2 by (intro finalRotation_lower) simp_all
  then show ?thesis using False n r
    by (simp add: spin_def startSpin_def restGrows_def Let_def)
qed

lemma frame_restGrows: "restGrows r0 w0 s \<Longrightarrow> restGrows r0 w0 (step (Frame now) s)"
proof (cases "pending s")
  case None
  assume "restGrows r0 w0 s"
  then show ?thesis using None by simp
next
  case (Some ss)
  assume "restGrows r0 w0 s"
  then have e: "r0 + 1350 * (real (winSoundPlays s) + 1 - real w0) \<le> endRotation ss"
    using Some by (simp add: restGrows_def)
  show ?thesis
  proof (cases "(now - start ss) / duration ss < 1")
    case True
    then show ?thesis using Some e
      by (simp add: restGrows_def animate_pending animate_winSoundPlays)
  next
    case False
    then show ?thesis using Some e
      by (simp add: restGrows_def animate_pending animate_rotation_end animate_winSoundPlays)
  qed
qed

lemma step_restGrows:
  "restGrows r0 w0 s \<Longrightarrow> wellFormed s \<Longrightarrow> validEvent e \<Longrightarrow> noUpdate e
   \<Longrightarrow> restGrows r0 w0 (step e s)"
proof (cases e)
  case (Frame now)
  assume "restGrows r0 w0 s"
  then show ?thesis unfolding Frame by (rule frame_restGrows)
next
  case (TypeNames v)
  assume "restGrows r0 w0 s"
  then show ?thesis using TypeNames by (simp add: restGrows_def split: option.splits)
qed (simp_all add: spin_restGrows del: unitInterval.simps)

lemma foldl_step_restGrows:
  "restGrows r0 w0 s \<Longrightarrow> wellFormed s \<Longrightarrow> list_all validEvent es \<Longrightarrow> list_all noUpdate es
   \<Longrightarrow> restGrows r0 w0 (foldl (\<lambda>s e. step e s) s es)"
  by (induction es arbitrary: s) (simp_all add: step_restGrows step_wellFormed)

lemma run_append: "run t0 (es @ es') = foldl (\<lambda>s e. step e s) (run t0 es) es'"
  by (simp add: run_def)

lemma rest_grows_without_update:
  assumes idle: "\<not> spinning (run t0 es)"
    and v: "list_all validEvent es'" and nu: "list_all noUpdate es'"
    and idle': "\<not> spinning (run t0 (es @ es'))"
  shows "rotation (run t0 es)
          + 1350 * (real (winSoundPlays (run t0 (es @ es'))) - real (winSoundPlays (run t0 es)))
        \<le> rotation (run t0 (es @ es'))"
proof -
  have p: "pending (run t0 es) = None"
    using run_wellFormed [of t0 es] idle by (simp add: wellFormed_def)
  have p': "pending (run t0 (es @ es')) = None"
    using run_wellFormed [of t0 "es @ es'"] idle' by (simp add: wellFormed_def)
  have "restGrows (rotation (run t0 es)) (winSoundPlays (run t0 es)) (run t0 es)"
    using p by (simp add: restGrows_def)
  then have "restGrows (rotation (run t0 es)) (winSoundPlays (run t0 es)) (run t0 (es @ es'))"
    unfolding run_append using run_wellFormed v nu by (rule foldl_step_restGrows)
  then show ?thesis using p' by (simp add: restGrows_def)
qed

lemma first_frame_rotation:
  assumes idle: "\<not> spinning s" and ne: "names s \<noteq> []"
  shows "rotation (frames [now'] (spin u1 u2 u3 now s))
     = jsRem (rotation s) 360
       + (rotation s
          + finalRotation (length (names s)) \<lfloor>u1 * real (length (names s))\<rfloor> (4 + \<lfloor>u2 * 3\<rfloor>)
          - jsRem (rotation s) 360)
         * easeOutCubic (min 1 ((now' - now) / (4200 + of_int \<lfloor>u3 * 1200\<rfloor>)))"
  using idle ne
  by (simp add: frames_def spin_def startSpin_def Let_def animate_rotation)

lemma first_frame_rewinds:
  assumes idle: "\<not> spinning s" and ne: "names s \<noteq> []"
    and u1: "unitInterval u1" and u2: "unitInterval u2" and u3: "unitInterval u3"
    and early: "now' - now \<le> 100" and far: "547 \<le> rotation s"
  shows "rotation (frames [now'] (spin u1 u2 u3 now s)) < rotation s"
proof -
  define n where "n = length (names s)"
  define fr where "fr = finalRotation n \<lfloor>u1 * real n\<rfloor> (4 + \<lfloor>u2 * 3\<rfloor>)"
  define sr where "sr = jsRem (rotation s) 360"
  define d :: real where "d = 4200 + of_int \<lfloor>u3 * 1200\<rfloor>"
  define q where "q = easeOutCubic (min 1 ((now' - now) / d))"
  have n0: "0 < n" using ne by (simp add: n_def)
  have r0: "0 \<le> rotation s" using far by simp
  have sr1: "sr < 360" unfolding sr_def by (rule jsRem_360_upper)
  have sr2: "sr \<le> rotation s" unfolding sr_def using r0 by (rule jsRem_360_le)
  have f1: "1350 < fr"
    unfolding fr_def using n0 u1 u2 by (intro finalRotation_lower) simp_all
  have f2: "fr < 2430"
    unfolding fr_def using n0 u1 u2
    by (intro finalRotation_upper random_index_upper random_turns_upper)
  have "0 \<le> \<lfloor>u3 * 1200\<rfloor>" using u3 by simp
  then have "0 \<le> (of_int \<lfloor>u3 * 1200\<rfloor> :: real)" by simp
  then have d: "4200 \<le> d" unfolding d_def by linarith
  have q: "q < 1 / 14" unfolding q_def using early d by (rule ease_early)
  have span: "0 < rotation s + fr - sr" using sr2 f1 by simp
  have "(rotation s + fr - sr) * q < (rotation s + fr - sr) * (1 / 14)"
    using span q by (simp only: mult_strict_left_mono)
  moreover have "rotation (frames [now'] (spin u1 u2 u3 now s)) = sr + (rotation s + fr - sr) * q"
    unfolding sr_def fr_def n_def q_def d_def using idle ne by (rule first_frame_rotation)
  ultimately show ?thesis using sr1 f2 far by simp
qed

lemma first_frame_at_request:
  assumes idle: "\<not> spinning s" and ne: "names s \<noteq> []" and r0: "0 \<le> rotation s"
  shows "rotation (frames [now] (spin u1 u2 u3 now s)) = jsRem (rotation s) 360"
    and "0 \<le> rotation (frames [now] (spin u1 u2 u3 now s))"
    and "rotation (frames [now] (spin u1 u2 u3 now s)) < 360"
proof -
  show eq: "rotation (frames [now] (spin u1 u2 u3 now s)) = jsRem (rotation s) 360"
    using first_frame_rotation [OF idle ne, where now = now and now' = now]
    by (simp add: easeOutCubic_def)
  show "0 \<le> rotation (frames [now] (spin u1 u2 u3 now s))"
    unfolding eq using r0 by (rule jsRem_360_nonneg)
  show "rotation (frames [now] (spin u1 u2 u3 now s)) < 360"
    unfolding eq by (rule jsRem_360_upper)
qed

lemma update_click_resets:
  assumes idle: "\<not> spinning (run t0 es)" and nb: "trim (namesInput (run t0 es)) \<noteq> []"
  shows "rotation (step UpdateClick (run t0 es)) = 0"
proof -
  have "\<not> updateBtnDisabled (run t0 es)"
    using run_wellFormed [of t0 es] idle by (simp add: wellFormed_def)
  then show ?thesis using nb by (simp add: updateHandler_def Let_def)
qed

lemma spin_frames_progress:
  assumes valid: "list_all validEvent es"
    and idle: "\<not> spinning (run t0 es)"
    and u1: "unitInterval u1" and u2: "unitInterval u2" and u3: "unitInterval u3"
    and ab: "a \<le> b"
  shows "rotation (frames (ts @ [a]) (spin u1 u2 u3 now (run t0 es)))
           \<le> rotation (frames (ts @ [a, b]) (spin u1 u2 u3 now (run t0 es)))
       \<and> (spinning (frames ts (spin u1 u2 u3 now (run t0 es)))
            \<and> \<not> spinning (frames (ts @ [b]) (spin u1 u2 u3 now (run t0 es)))
          \<longrightarrow> rotation (frames (ts @ [b]) (spin u1 u2 u3 now (run t0 es)))
                = rotation (run t0 es)
                  + finalRotation (length (names (run t0 es)))
                      \<lfloor>u1 * real (length (names (run t0 es)))\<rfloor> (4 + \<lfloor>u2 * 3\<rfloor>)
              \<and> rotation (run t0 es)
                  < rotation (frames (ts @ [b]) (spin u1 u2 u3 now (run t0 es))))
       \<and> 0 \<le> rotation (run t0 es)"
proof -
  define s where "s = run t0 es"
  define n where "n = length (names s)"
  define fr where "fr = finalRotation n \<lfloor>u1 * real n\<rfloor> (4 + \<lfloor>u2 * 3\<rfloor>)"
  define ss where "ss = \<lparr> targetIndex = \<lfloor>u1 * real n\<rfloor>, start = now,
      duration = 4200 + of_int \<lfloor>u3 * 1200\<rfloor>,
      startRotation = jsRem (rotation s) 360, endRotation = rotation s + fr \<rparr>"
  define s1 where "s1 = spin u1 u2 u3 now s"
  have wf: "wellFormed s" unfolding s_def by (rule run_wellFormed)
  have ne: "names s \<noteq> []" unfolding s_def by (rule run_names_nonempty)
  then have n0: "0 < n" unfolding n_def by simp
  have r0: "0 \<le> rotation s"
    unfolding s_def using valid idle by (rule run_idle_rotation)
  have p1: "pending s1 = Some ss"
    unfolding s1_def ss_def fr_def n_def using idle ne
    by (simp add: spin_def startSpin_def Let_def s_def)
  have frpos: "1350 < fr"
    unfolding fr_def using n0 u1 u2 by (intro finalRotation_lower) simp_all
  have "0 \<le> \<lfloor>u3 * 1200\<rfloor>" using u3 by simp
  then have "0 \<le> (of_int \<lfloor>u3 * 1200\<rfloor> :: real)" by simp
  moreover have "duration ss = 4200 + of_int \<lfloor>u3 * 1200\<rfloor>" by (simp add: ss_def)
  ultimately have d: "0 < duration ss" by linarith
  have lo: "startRotation ss \<le> rotation s"
    using jsRem_360_le [OF r0] by (simp add: ss_def)
  have hi: "endRotation ss = rotation s + fr" by (simp add: ss_def)
  have r: "startRotation ss \<le> endRotation ss" using lo hi frpos by simp
  define x where "x = frames ts s1"
  have px: "pending x = Some ss \<or> pending x = None"
    unfolding x_def using p1 by (rule frames_pending)
  have wfx: "wellFormed x"
    unfolding x_def s1_def using wf by (intro frames_wellFormed spin_wellFormed)
  have mono: "rotation (frames (ts @ [a]) s1) \<le> rotation (frames (ts @ [a, b]) s1)"
  proof -
    have "frames (ts @ [a, b]) s1 = step (Frame b) (step (Frame a) x)"
      by (simp add: frames_def x_def)
    moreover have "frames (ts @ [a]) s1 = step (Frame a) x"
      by (simp add: frames_def x_def)
    ultimately show ?thesis using two_frames_mono [OF px ab d r] by simp
  qed
  have fin: "rotation (frames (ts @ [b]) s1) = rotation s + fr
      \<and> rotation s < rotation (frames (ts @ [b]) s1)"
    if sp: "spinning x" and stopped: "\<not> spinning (frames (ts @ [b]) s1)"
  proof -
    have "pending x \<noteq> None" using wfx sp by (simp add: wellFormed_def)
    with px have x: "pending x = Some ss" by (elim disjE) simp_all
    have st: "frames (ts @ [b]) s1 = animate ss b (x\<lparr>pending := None\<rparr>)"
      using x by (simp add: frames_def x_def)
    have e: "\<not> (b - start ss) / duration ss < 1"
      using stopped sp unfolding st by (simp add: animate_spinning split: if_splits)
    have "rotation (frames (ts @ [b]) s1) = endRotation ss"
      unfolding st using e by (rule animate_rotation_end)
    then show ?thesis using hi frpos by simp
  qed
  show ?thesis
    using mono fin r0 unfolding x_def s1_def fr_def n_def s_def by blast
qed

section \<open>The properties\<close>

text \<open>
  Claim C1. Round trip between targeting and resolving: from rotation 0, feeding the
  \<open>endRotation\<close> that \<open>spin\<close> builds for a target index to the index expression of
  \<open>finishSpin\<close> should give the target index back. It does not: by
  \<open>resolveIndex_mirror\<close> the expression gives \<open>n - 1 - ti\<close>. With two names and target 1
  (four full turns) the resolved index is 0; with the eight default names and target 4 it
  is 3. The slice mid-angle enters \<open>targetMidAngle\<close> with the wrong sign for the clockwise
  canvas rotation that \<open>finishSpin\<close> resolves.
\<close>

theorem roundtrip_two_names_target_1:
  "resolveIndex (0 + finalRotation 2 1 4) 2 = 0
   \<and> resolveIndex (0 + finalRotation 2 1 4) 2 \<noteq> 1
   \<and> resolveIndex (0 + finalRotation 8 4 4) 8 = 3"
  by (simp add: number_defs)

text \<open>
  Claim C2. The scenario with the names A and B, target index 1 and four full turns, from
  rotation 0: \<open>anglePer\<close> is 180, \<open>targetMidAngle\<close> is 180, \<open>finalRotation\<close> and
  \<open>endRotation\<close> are 1620, and 1620 leaves the remainder 180. The index resolved from it
  is 0, not 1, and the page shows the winner A.
\<close>

theorem spin_two_names_end_to_end:
  "anglePer 2 = 180
   \<and> targetMidAngle 2 1 = 180
   \<and> finalRotation 2 1 4 = 1620
   \<and> endRotation (the (pending (spin (1/2) 0 0 0 (initState []\<lparr>names := [js ''A'', js ''B'']\<rparr>)))) = 1620
   \<and> targetIndex (the (pending (spin (1/2) 0 0 0 (initState []\<lparr>names := [js ''A'', js ''B'']\<rparr>)))) = 1
   \<and> jsRem 1620 360 = 180
   \<and> resolveIndex 1620 2 = 0
   \<and> resultText (step (Frame 4200) (spin (1/2) 0 0 0 (initState []\<lparr>names := [js ''A'', js ''B'']\<rparr>)))
       = js ''Winner: A''"
  by (simp add: number_defs machine_defs js_def emDash_def)

text \<open>
  Claim C3, as the code has it. Take a reachable state at rest and a spin requested there.
  Within the spin the rotation never decreases from one animation frame to the next when
  the frames' timestamps do not decrease, and in exact arithmetic the spin completes at the
  rotation it was requested at plus \<open>finalRotation\<close>, more than 1350 degrees above.
  The rotation at rest is never negative, and along any events without a click on the
  update button it never decreases and grows by at least 1350 degrees with every completed
  spin; a click on the update button with a non-blank input sets it to 0. Inside a later spin the rotation
  does go down: the animation starts from the remainder of the rotation by 360, so a frame
  at the timestamp of the request puts the rotation between 0 and 360, and any first frame
  within 100 milliseconds of the request lowers a rotation of 547 or more (after a completed
  spin it is above 1350).
\<close>

theorem rotation_within_and_across_spins:
  assumes valid: "list_all validEvent es"
    and idle: "\<not> spinning (run t0 es)"
    and u1: "unitInterval u1" and u2: "unitInterval u2" and u3: "unitInterval u3"
    and ab: "a \<le> b"
  shows "rotation (frames (ts @ [a]) (spin u1 u2 u3 now (run t0 es)))
           \<le> rotation (frames (ts @ [a, b]) (spin u1 u2 u3 now (run t0 es)))
       \<and> (spinning (frames ts (spin u1 u2 u3 now (run t0 es)))
            \<and> \<not> spinning (frames (ts @ [b]) (spin u1 u2 u3 now (run t0 es)))
          \<longrightarrow> rotation (frames (ts @ [b]) (spin u1 u2 u3 now (run t0 es)))
                = rotation (run t0 es)
                  + finalRotation (length (names (run t0 es)))
                      \<lfloor>u1 * real (length (names (run t0 es)))\<rfloor> (4 + \<lfloor>u2 * 3\<rfloor>)
              \<and> rotation (run t0 es) + 1350
                  < rotation (frames (ts @ [b]) (spin u1 u2 u3 now (run t0 es))))
       \<and> 0 \<le> rotation (run t0 es)
       \<and> (list_all validEvent es' \<and> list_all noUpdate es' \<and> \<not> spinning (run t0 (es @ es'))
          \<longrightarrow> rotation (run t0 es)
                + 1350 * (real (winSoundPlays (run t0 (es @ es')))
                          - real (winSoundPlays (run t0 es)))
              \<le> rotation (run t0 (es @ es')))
       \<and> (trim (namesInput (run t0 es)) \<noteq> []
          \<longrightarrow> rotation (step UpdateClick (run t0 es)) = 0)
       \<and> rotation (frames [now] (spin u1 u2 u3 now (run t0 es)))
           = jsRem (rotation (run t0 es)) 360
       \<and> 0 \<le> rotation (frames [now] (spin u1 u2 u3 now (run t0 es)))
       \<and> rotation (frames [now] (spin u1 u2 u3 now (run t0 es))) < 360
       \<and> (c - now \<le> 100 \<and> 547 \<le> rotation (run t0 es)
          \<longrightarrow> rotation (frames [c] (spin u1 u2 u3 now (run t0 es))) < rotation (run t0 es))"
proof -
  have ne: "names (run t0 es) \<noteq> []" by (rule run_names_nonempty)
  then have n0: "0 < length (names (run t0 es))" by simp
  have r0: "0 \<le> rotation (run t0 es)"
    using valid idle by (rule run_idle_rotation)
  have fr: "1350 < finalRotation (length (names (run t0 es)))
      \<lfloor>u1 * real (length (names (run t0 es)))\<rfloor> (4 + \<lfloor>u2 * 3\<rfloor>)"
    using n0 u1 u2 by (intro finalRotation_lower) simp_all
  note p12 = spin_frames_progress [OF valid idle u1 u2 u3 ab, of ts now]
  have p1: "rotation (frames (ts @ [a]) (spin u1 u2 u3 now (run t0 es)))
           \<le> rotation (frames (ts @ [a, b]) (spin u1 u2 u3 now (run t0 es)))"
    using p12 by (rule conjunct1)
  have p2: "rotation (frames (ts @ [b]) (spin u1 u2 u3 now (run t0 es)))
                = rotation (run t0 es)
                  + finalRotation (length (names (run t0 es)))
                      \<lfloor>u1 * real (length (names (run t0 es)))\<rfloor> (4 + \<lfloor>u2 * 3\<rfloor>)
              \<and> rotation (run t0 es) + 1350
                  < rotation (frames (ts @ [b]) (spin u1 u2 u3 now (run t0 es)))"
    if "spinning (frames ts (spin u1 u2 u3 now (run t0 es)))"
      "\<not> spinning (frames (ts @ [b]) (spin u1 u2 u3 now (run t0 es)))"
    using p12 that fr by simp
  have p4: "rotation (run t0 es)
                + 1350 * (real (winSoundPlays (run t0 (es @ es')))
                          - real (winSoundPlays (run t0 es)))
              \<le> rotation (run t0 (es @ es'))"
    if "list_all validEvent es'" "list_all noUpdate es'" "\<not> spinning (run t0 (es @ es'))"
    using idle that by (rule rest_grows_without_update)
  have p5: "rotation (step UpdateClick (run t0 es)) = 0"
    if "trim (namesInput (run t0 es)) \<noteq> []"
    using idle that by (rule update_click_resets)
  note p6 = first_frame_at_request [OF idle ne r0, of now u1 u2 u3]
  have p7: "rotation (frames [c] (spin u1 u2 u3 now (run t0 es))) < rotation (run t0 es)"
    if "c - now \<le> 100" "547 \<le> rotation (run t0 es)"
    using idle ne u1 u2 u3 that by (rule first_frame_rewinds)
  show ?thesis
    using p1 p2 r0 p4 p5 p6 p7 by blast
qed

theorem rotation_within_and_across_spins_witness:
  "rotation (frames [7100] (spin (1/2) 0 0 5000 (run [] [SpinClick (1/2) 0 0 0, Frame 4200])))
     \<le> rotation (frames [7100, 9200]
                   (spin (1/2) 0 0 5000 (run [] [SpinClick (1/2) 0 0 0, Frame 4200])))
   \<and> rotation (run [] [SpinClick (1/2) 0 0 0, Frame 4200]) = 3105 / 2
   \<and> rotation (frames [7100] (spin (1/2) 0 0 5000 (run [] [SpinClick (1/2) 0 0 0, Frame 4200])))
       = 87390 / 32
   \<and> rotation (frames [7100, 9200]
                 (spin (1/2) 0 0 5000 (run [] [SpinClick (1/2) 0 0 0, Frame 4200])))
       = 3105
   \<and> rotation (run [] [SpinClick (1/2) 0 0 0, Frame 4200]) + 1350
       < rotation (frames [7100, 9200]
                     (spin (1/2) 0 0 5000 (run [] [SpinClick (1/2) 0 0 0, Frame 4200])))
   \<and> rotation (run [] [SpinClick (1/2) 0 0 0, Frame 4200]) + 1350 * (2 - 1)
       \<le> rotation (run [] ([SpinClick (1/2) 0 0 0, Frame 4200]
                           @ [TypeNames (js ''A''), SpaceKey (1/2) 0 0 5000, Frame 7100, Frame 9200]))
   \<and> rotation (step UpdateClick (run [] [SpinClick (1/2) 0 0 0, Frame 4200])) = 0
   \<and> rotation (frames [5000] (spin (1/2) 0 0 5000 (run [] [SpinClick (1/2) 0 0 0, Frame 4200])))
       = 225 / 2
   \<and> rotation (frames [5016] (spin (1/2) 0 0 5000 (run [] [SpinClick (1/2) 0 0 0, Frame 4200])))
       < 3105 / 2"
proof -
  have v: "list_all validEvent [SpinClick (1/2) 0 0 0, Frame 4200]" by simp
  have idle: "\<not> spinning (run [] [SpinClick (1/2) 0 0 0, Frame 4200])"
    by (simp add: machine_defs defaultNames_def)
  have u: "unitInterval (1/2)" "unitInterval 0" by simp_all
  have ab: "(7100::real) \<le> 9200" by simp
  have sp: "spinning (frames [7100]
      (spin (1/2) 0 0 5000 (run [] [SpinClick (1/2) 0 0 0, Frame 4200])))"
    by (simp add: machine_defs defaultNames_def)
  have st: "\<not> spinning (frames ([7100] @ [9200])
      (spin (1/2) 0 0 5000 (run [] [SpinClick (1/2) 0 0 0, Frame 4200])))"
    by (simp add: machine_defs defaultNames_def)
  have mid: "rotation (frames [7100]
      (spin (1/2) 0 0 5000 (run [] [SpinClick (1/2) 0 0 0, Frame 4200]))) = 87390 / 32"
    by (simp add: machine_defs number_defs defaultNames_def power3_eq_cube)
  have fr: "finalRotation (length (names (run [] [SpinClick (1/2) 0 0 0, Frame 4200])))
      \<lfloor>1/2 * real (length (names (run [] [SpinClick (1/2) 0 0 0, Frame 4200])))\<rfloor>
      (4 + \<lfloor>0 * 3\<rfloor>) = 3105 / 2"
    by (simp add: machine_defs defaultNames_def number_defs)
  have r0: "rotation (run [] [SpinClick (1/2) 0 0 0, Frame 4200]) = 3105 / 2"
    by (simp add: machine_defs number_defs defaultNames_def)
  have v': "list_all validEvent
      [TypeNames (js ''A''), SpaceKey (1/2) 0 0 5000, Frame 7100, Frame 9200]"
    "list_all noUpdate [TypeNames (js ''A''), SpaceKey (1/2) 0 0 5000, Frame 7100, Frame 9200]"
    by simp_all
  have idle': "\<not> spinning (run [] ([SpinClick (1/2) 0 0 0, Frame 4200]
      @ [TypeNames (js ''A''), SpaceKey (1/2) 0 0 5000, Frame 7100, Frame 9200]))"
    by (simp add: machine_defs defaultNames_def)
  have w: "winSoundPlays (run [] [SpinClick (1/2) 0 0 0, Frame 4200]) = 1"
    "winSoundPlays (run [] ([SpinClick (1/2) 0 0 0, Frame 4200]
      @ [TypeNames (js ''A''), SpaceKey (1/2) 0 0 5000, Frame 7100, Frame 9200])) = 2"
    by (simp_all add: machine_defs defaultNames_def)
  have nb: "trim (namesInput (run [] [SpinClick (1/2) 0 0 0, Frame 4200])) \<noteq> []"
    by (simp add: machine_defs string_defs)
  have rem: "jsRem (3105 / 2) 360 = 225 / 2"
    by (simp add: number_defs)
  have early: "(5016::real) - 5000 \<le> 100" "(547::real) \<le> 3105 / 2" by simp_all
  note at_spin = rotation_within_and_across_spins [OF v idle u(1) u(2) u(2) ab,
      where ts = "[7100]" and now = 5000 and c = 5016
        and es' = "[TypeNames (js ''A''), SpaceKey (1/2) 0 0 5000, Frame 7100, Frame 9200]",
      unfolded append.simps]
  note at_start = rotation_within_and_across_spins [OF v idle u(1) u(2) u(2) ab,
      where ts = "[]" and now = 5000 and c = 5016 and es' = "[]", unfolded append.simps]
  note k1 = at_start [THEN conjunct1]
  note k2 = at_spin [THEN conjunct2, THEN conjunct1]
  note k4 = at_spin [THEN conjunct2, THEN conjunct2, THEN conjunct2, THEN conjunct1]
  note k5 = at_spin [THEN conjunct2, THEN conjunct2, THEN conjunct2, THEN conjunct2,
      THEN conjunct1]
  note k6 = at_spin [THEN conjunct2, THEN conjunct2, THEN conjunct2, THEN conjunct2,
      THEN conjunct2, THEN conjunct1]
  note k9 = at_spin [THEN conjunct2, THEN conjunct2, THEN conjunct2, THEN conjunct2,
      THEN conjunct2, THEN conjunct2, THEN conjunct2, THEN conjunct2]
  have far: "547 \<le> rotation (run [] [SpinClick (1/2) 0 0 0, Frame 4200])"
    unfolding r0 by simp
  note c1 = k1
  note c2 = k2 [THEN mp, OF conjI [OF sp st [unfolded append.simps]]]
  note c3 = k4 [THEN mp, OF conjI [OF v'(1) conjI [OF v'(2) idle' [unfolded append.simps]]]]
  note c4 = k5 [THEN mp, OF nb]
  note c5 = k6
  note c6 = k9 [THEN mp, OF conjI [OF early(1) far]]
  have c3': "rotation (run [] [SpinClick (1/2) 0 0 0, Frame 4200]) + 1350 * (2 - 1)
       \<le> rotation (run [] ([SpinClick (1/2) 0 0 0, Frame 4200]
                           @ [TypeNames (js ''A''), SpaceKey (1/2) 0 0 5000, Frame 7100, Frame 9200]))"
    using c3 unfolding w [unfolded append.simps] append.simps by simp
  have c2': "rotation (frames [7100, 9200]
                 (spin (1/2) 0 0 5000 (run [] [SpinClick (1/2) 0 0 0, Frame 4200]))) = 3105"
    using c2 unfolding fr r0 by simp
  have c5': "rotation (frames [5000] (spin (1/2) 0 0 5000 (run [] [SpinClick (1/2) 0 0 0, Frame 4200])))
       = 225 / 2"
    using c5 unfolding r0 rem .
  have c6': "rotation (frames [5016] (spin (1/2) 0 0 5000 (run [] [SpinClick (1/2) 0 0 0, Frame 4200])))
       < 3105 / 2"
    using c6 unfolding r0 .
  show ?thesis
    using c2 [THEN conjunct2] by (intro conjI c1 r0 mid c2' c3' c4 c5' c6')
qed

theorem later_spin_rewinds_rotation_counterexample:
  "rotation (run [] [SpinClick (1/2) 0 0 0, Frame 4200, SpinClick (1/2) 0 0 5000]) = 3105 / 2
   \<and> rotation (run [] [SpinClick (1/2) 0 0 0, Frame 4200, SpinClick (1/2) 0 0 5000, Frame 5016])
       < rotation (run [] [SpinClick (1/2) 0 0 0, Frame 4200, SpinClick (1/2) 0 0 5000])
   \<and> rotation (run [] [SpinClick (1/2) 0 0 0, Frame 4200, SpinClick (1/2) 0 0 5000, Frame 5016])
       < 360
   \<and> 0 \<le> rotation (run [] [SpinClick (1/2) 0 0 0, Frame 4200, SpinClick (1/2) 0 0 5000, Frame 5016])"
  by (simp add: machine_defs number_defs defaultNames_def power3_eq_cube)

text \<open>
  Claim C4, as the code has it. The update handler has no guard on \<open>spinning\<close>: it
  neither reads nor writes the flag, and with a non-blank input it installs the names,
  sets the rotation to 0 and resets the result text whether a spin runs or not. A running
  spin is protected by the disabled update button only: in every reachable state with
  \<open>spinning\<close> set the button is disabled, and a click on it changes nothing.
\<close>

theorem update_guarded_only_by_button:
  "updateHandler (s\<lparr>spinning := b\<rparr>) = (updateHandler s)\<lparr>spinning := b\<rparr>
   \<and> (trim (namesInput s) \<noteq> [] \<longrightarrow>
        rotation (updateHandler s) = 0
        \<and> resultText (updateHandler s) = js ''Winner: '' @ emDash
        \<and> names (updateHandler s)
            = (if length (parseNames (trim (namesInput s))) \<noteq> 0
               then parseNames (trim (namesInput s)) else defaultNames)
        \<and> spinning (updateHandler s) = spinning s)
   \<and> (spinning (run t0 es) \<longrightarrow>
        updateBtnDisabled (run t0 es) \<and> step UpdateClick (run t0 es) = run t0 es)"
proof -
  have "updateBtnDisabled (run t0 es) = spinning (run t0 es)"
    using run_wellFormed [of t0 es] by (simp add: wellFormed_def)
  then show ?thesis by (simp add: updateHandler_def Let_def)
qed

theorem update_guarded_only_by_button_witness:
  "spinning (run [] [TypeNames (js ''X''), SpaceKey (1/2) 0 0 0, Frame 2100])
   \<and> rotation (updateHandler (run [] [TypeNames (js ''X''), SpaceKey (1/2) 0 0 0, Frame 2100])) = 0
   \<and> names (updateHandler (run [] [TypeNames (js ''X''), SpaceKey (1/2) 0 0 0, Frame 2100])) = [js ''X'']
   \<and> resultText (updateHandler (run [] [TypeNames (js ''X''), SpaceKey (1/2) 0 0 0, Frame 2100]))
       = js ''Winner: '' @ emDash
   \<and> spinning (updateHandler (run [] [TypeNames (js ''X''), SpaceKey (1/2) 0 0 0, Frame 2100]))
   \<and> step UpdateClick (run [] [TypeNames (js ''X''), SpaceKey (1/2) 0 0 0, Frame 2100])
       = run [] [TypeNames (js ''X''), SpaceKey (1/2) 0 0 0, Frame 2100]"
proof -
  have sp: "spinning (run [] [TypeNames (js ''X''), SpaceKey (1/2) 0 0 0, Frame 2100])"
    by (simp add: machine_defs defaultNames_def)
  have inp: "namesInput (run [] [TypeNames (js ''X''), SpaceKey (1/2) 0 0 0, Frame 2100]) = js ''X''"
    by (simp add: machine_defs defaultNames_def)
  have tr: "trim (js ''X'') \<noteq> []" "parseNames (trim (js ''X'')) = [js ''X'']"
    by (simp_all add: string_defs)
  show ?thesis
    using sp inp tr
      update_guarded_only_by_button
        [of True "run [] [TypeNames (js ''X''), SpaceKey (1/2) 0 0 0, Frame 2100]" "[]"
            "[TypeNames (js ''X''), SpaceKey (1/2) 0 0 0, Frame 2100]"]
    by simp
qed

theorem update_while_spinning_counterexample:
  "spinning (run [] [TypeNames (js ''X''), SpaceKey (1/2) 0 0 0, Frame 2100])
   \<and> names (updateHandler (run [] [TypeNames (js ''X''), SpaceKey (1/2) 0 0 0, Frame 2100]))
       \<noteq> names (run [] [TypeNames (js ''X''), SpaceKey (1/2) 0 0 0, Frame 2100])
   \<and> rotation (updateHandler (run [] [TypeNames (js ''X''), SpaceKey (1/2) 0 0 0, Frame 2100]))
       \<noteq> rotation (run [] [TypeNames (js ''X''), SpaceKey (1/2) 0 0 0, Frame 2100])
   \<and> resultText (updateHandler (run [] [TypeNames (js ''X''), SpaceKey (1/2) 0 0 0, Frame 2100]))
       \<noteq> resultText (run [] [TypeNames (js ''X''), SpaceKey (1/2) 0 0 0, Frame 2100])"
  by (simp add: machine_defs number_defs string_defs power3_eq_cube)

text \<open>
  Claim C5, as the code has it. For an input that is empty or white space only the handler
  returns early and changes nothing, so the names stay what they were. For an input that is
  not blank but parses to no entry (white space and commas only, for instance) the names
  become exactly the eight default names in their order.
\<close>

theorem update_blank_or_no_entries:
  "(list_all isWhiteSpace (namesInput s) \<longrightarrow> updateHandler s = s)
   \<and> (\<not> list_all isWhiteSpace (namesInput s) \<and> parseNames (trim (namesInput s)) = []
        \<longrightarrow> names (updateHandler s) = defaultNames)
   \<and> (\<not> list_all isWhiteSpace (namesInput s)
        \<and> list_all (\<lambda>c. isWhiteSpace c \<or> c = 0x2C) (namesInput s)
        \<longrightarrow> names (updateHandler s) = defaultNames)
   \<and> defaultNames = [js ''Alice'', js ''Bob'', js ''Charlie'', js ''Diana'', js ''Eve'',
        js ''Frank'', js ''Grace'', js ''Heidi'']"
proof -
  have a: "updateHandler s = s" if "list_all isWhiteSpace (namesInput s)"
    using that by (simp add: updateHandler_def trim_empty_iff)
  have b: "names (updateHandler s) = defaultNames"
    if "\<not> list_all isWhiteSpace (namesInput s)" "parseNames (trim (namesInput s)) = []"
    using that by (simp add: updateHandler_names trim_empty_iff)
  have c: "names (updateHandler s) = defaultNames"
    if "\<not> list_all isWhiteSpace (namesInput s)"
       "list_all (\<lambda>c. isWhiteSpace c \<or> c = 0x2C) (namesInput s)"
    using that b parseNames_trim_blank by blast
  have d: "defaultNames = [js ''Alice'', js ''Bob'', js ''Charlie'', js ''Diana'', js ''Eve'',
        js ''Frank'', js ''Grace'', js ''Heidi'']"
    by (simp add: defaultNames_def)
  show ?thesis using a b c d by blast
qed

theorem update_blank_or_no_entries_witness:
  "updateHandler (initState []\<lparr>names := [js ''A'', js ''B''], namesInput := js ''  ''\<rparr>)
     = initState []\<lparr>names := [js ''A'', js ''B''], namesInput := js ''  ''\<rparr>
   \<and> names (updateHandler (initState []\<lparr>names := [js ''A'', js ''B''], namesInput := js '' , ,''\<rparr>))
     = defaultNames"
proof -
  have h1: "list_all isWhiteSpace (namesInput (initState []\<lparr>names := [js ''A'', js ''B''], namesInput := js ''  ''\<rparr>))"
    by (simp add: js_def isWhiteSpace_def)
  have h2: "\<not> list_all isWhiteSpace (namesInput (initState []\<lparr>names := [js ''A'', js ''B''], namesInput := js '' , ,''\<rparr>))"
    by (simp add: js_def isWhiteSpace_def)
  have h3: "list_all (\<lambda>c. isWhiteSpace c \<or> c = 0x2C) (namesInput (initState []\<lparr>names := [js ''A'', js ''B''], namesInput := js '' , ,''\<rparr>))"
    by (simp add: js_def isWhiteSpace_def)
  show ?thesis
    using h1 h2 h3
      update_blank_or_no_entries [of "initState []\<lparr>names := [js ''A'', js ''B''], namesInput := js ''  ''\<rparr>"]
      update_blank_or_no_entries [of "initState []\<lparr>names := [js ''A'', js ''B''], namesInput := js '' , ,''\<rparr>"]
    by blast
qed

theorem blank_update_keeps_names_counterexample:
  "names (run [] [TypeNames (js ''A,B''), UpdateClick, TypeNames (js ''   ''), UpdateClick])
     = [js ''A'', js ''B'']
   \<and> names (run [] [TypeNames (js ''A,B''), UpdateClick, TypeNames (js ''   ''), UpdateClick])
     \<noteq> defaultNames"
  by (simp add: run_def initState_def updateHandler_def string_defs Let_def)

text \<open>
  Claim C6. When \<open>spinning\<close> is set or the names list is empty, \<open>spin\<close> returns the
  state unchanged: the flag, the rotation, the names and everything else, and no callback
  is registered. The same holds for the space key and for a click on the spin button.
\<close>

theorem spin_rejected_is_noop:
  "spinning s \<or> names s = [] \<Longrightarrow>
     spin u1 u2 u3 now s = s
     \<and> step (SpaceKey u1 u2 u3 now) s = s
     \<and> step (SpinClick u1 u2 u3 now) s = s"
  by (auto simp add: spin_def)

theorem spin_rejected_is_noop_witness:
  "spinning (run [] [SpaceKey (1/2) 0 0 0])
   \<and> spin (1/4) (1/2) 0 100 (run [] [SpaceKey (1/2) 0 0 0]) = run [] [SpaceKey (1/2) 0 0 0]
   \<and> step (SpaceKey (1/4) (1/2) 0 100) (run [] [SpaceKey (1/2) 0 0 0]) = run [] [SpaceKey (1/2) 0 0 0]
   \<and> step (SpinClick (1/4) (1/2) 0 100) (run [] [SpaceKey (1/2) 0 0 0]) = run [] [SpaceKey (1/2) 0 0 0]
   \<and> spin (1/4) (1/2) 0 100 (initState []\<lparr>names := []\<rparr>) = initState []\<lparr>names := []\<rparr>"
proof -
  have sp: "spinning (run [] [SpaceKey (1/2) 0 0 0])"
    by (simp add: run_def initState_def spin_def startSpin_def defaultNames_def Let_def)
  show ?thesis
    using sp spin_rejected_is_noop [of "run [] [SpaceKey (1/2) 0 0 0]" "1/4" "1/2" 0 100]
      spin_rejected_is_noop [of "initState []\<lparr>names := []\<rparr>" "1/4" "1/2" 0 100]
    by simp
qed

text \<open>
  Claim C7. \<open>easeOutCubic t\<close> is \<open>1 - (1 - t)^3\<close>; it is 0 at 0 and 1 at 1, it is
  non-decreasing on the unit interval and maps the unit interval into itself.
\<close>

theorem easeOutCubic_spec:
  "easeOutCubic t = 1 - (1 - t) ^ 3
   \<and> easeOutCubic 0 = 0
   \<and> easeOutCubic 1 = 1
   \<and> (0 \<le> a \<and> a \<le> b \<and> b \<le> 1 \<longrightarrow> easeOutCubic a \<le> easeOutCubic b)
   \<and> (0 \<le> t \<and> t \<le> 1 \<longrightarrow> 0 \<le> easeOutCubic t \<and> easeOutCubic t \<le> 1)"
proof -
  have range: "0 \<le> easeOutCubic t \<and> easeOutCubic t \<le> 1" if "0 \<le> t" "t \<le> 1"
  proof -
    have "easeOutCubic 0 \<le> easeOutCubic t" "easeOutCubic t \<le> easeOutCubic 1"
      using that by (simp_all only: easeOutCubic_mono)
    then show ?thesis by (simp add: easeOutCubic_def)
  qed
  show ?thesis
    using range easeOutCubic_mono [of a b] by (simp add: easeOutCubic_def)
qed

theorem easeOutCubic_spec_witness:
  "easeOutCubic (1/2) = 7/8
   \<and> easeOutCubic (1/4) \<le> easeOutCubic (1/2)
   \<and> 0 \<le> easeOutCubic (1/2) \<and> easeOutCubic (1/2) \<le> 1"
  using easeOutCubic_spec [of "1/2" "1/4" "1/2"] by (simp add: power3_eq_cube)

text \<open>
  Claim C8. The names list is not empty in any reachable state. It starts as the eight
  default names; an update that does not return early installs the parsed list when that
  has an entry and the default names otherwise, and an update that returns early keeps the
  names. So in a reachable state the guard of \<open>spin\<close> rejects exactly when
  \<open>spinning\<close> is set.
\<close>

theorem names_never_empty:
  "names (run t0 es) \<noteq> []
   \<and> names (initState t0) = defaultNames
   \<and> length defaultNames = 8
   \<and> (spinning (run t0 es) \<or> length (names (run t0 es)) = 0) = spinning (run t0 es)
   \<and> (trim (namesInput s) \<noteq> [] \<longrightarrow>
        names (updateHandler s) \<noteq> []
        \<and> names (updateHandler s)
            = (if length (parseNames (trim (namesInput s))) \<noteq> 0
               then parseNames (trim (namesInput s)) else defaultNames))
   \<and> (trim (namesInput s) = [] \<longrightarrow> names (updateHandler s) = names s)"
  using run_names_nonempty [of t0 es] defaultNames_nonempty
  by (simp add: updateHandler_names initState_def) (simp add: defaultNames_def)

theorem names_never_empty_witness:
  "names (run [] [TypeNames (js ''A, B''), UpdateClick]) \<noteq> []
   \<and> names (updateHandler (initState []\<lparr>namesInput := js ''A, B''\<rparr>)) = [js ''A'', js ''B'']
   \<and> names (updateHandler (initState []\<lparr>namesInput := js '',''\<rparr>)) = defaultNames
   \<and> names (updateHandler (initState []\<lparr>namesInput := js '' ''\<rparr>)) = defaultNames"
proof -
  have p1: "parseNames (trim (js ''A, B'')) = [js ''A'', js ''B'']"
    by (simp add: string_defs)
  have p2: "parseNames (trim (js '','')) = []"
    by (simp add: string_defs)
  have t1: "trim (js ''A, B'') \<noteq> []" "trim (js '','') \<noteq> []" "trim (js '' '') = []"
    by (simp_all add: string_defs)
  show ?thesis
    using p1 p2 t1
      names_never_empty [of "[]" "[TypeNames (js ''A, B''), UpdateClick]"
        "initState []\<lparr>namesInput := js ''A, B''\<rparr>"]
      names_never_empty [of "[]" "[]" "initState []\<lparr>namesInput := js '',''\<rparr>"]
      names_never_empty [of "[]" "[]" "initState []\<lparr>namesInput := js '' ''\<rparr>"]
    by simp
qed

text \<open>
  Claim C9. With the names of any reachable state and any rotation, the index computed by
  \<open>finishSpin\<close> is at least 0 and below the number of names, the name at that index is
  not empty, and the result text is that name after the prefix: the dash fallback is not
  taken. In particular this is so for the frame that completes a spin.
\<close>

theorem finishSpin_index_in_range:
  "0 \<le> resolveIndex rot (length (names (run t0 es)))
   \<and> resolveIndex rot (length (names (run t0 es))) < int (length (names (run t0 es)))
   \<and> winnerAt (names (run t0 es)) (resolveIndex rot (length (names (run t0 es))))
       = names (run t0 es) ! nat (resolveIndex rot (length (names (run t0 es))))
   \<and> winnerAt (names (run t0 es)) (resolveIndex rot (length (names (run t0 es))))
       \<in> set (names (run t0 es))
   \<and> resultText (finishSpin w ((run t0 es)\<lparr>rotation := rot\<rparr>))
       = js ''Winner: ''
         @ names (run t0 es) ! nat (resolveIndex rot (length (names (run t0 es))))
   \<and> (spinning (run t0 es) \<and> \<not> spinning (step (Frame now) (run t0 es)) \<longrightarrow>
        resultText (step (Frame now) (run t0 es))
          = js ''Winner: ''
            @ names (run t0 es)
              ! nat (resolveIndex (rotation (step (Frame now) (run t0 es)))
                      (length (names (run t0 es)))))"
proof -
  define s where "s = run t0 es"
  define i where "i = resolveIndex rot (length (names s))"
  have n: "0 < length (names s)"
    unfolding s_def using run_names_nonempty [of t0 es] by simp
  have i0: "0 \<le> i" and i1: "i < int (length (names s))"
    unfolding i_def using n by (rule resolveIndex_range)+
  have w: "winnerAt (names s) j = names s ! nat j"
    if "0 \<le> j" "j < int (length (names s))" for j
    using that run_names_entries [of t0 es] unfolding s_def
    by (rule winnerAt_in_range)
  have m: "names s ! nat i \<in> set (names s)"
    using i0 i1 by simp
  have f: "resultText (finishSpin w (s\<lparr>rotation := rot\<rparr>)) = js ''Winner: '' @ names s ! nat i"
    using w [OF i0 i1] by (simp add: finishSpin_def Let_def i_def)
  have g: "resultText (step (Frame now) s)
      = js ''Winner: '' @ names s ! nat (resolveIndex (rotation (step (Frame now) s)) (length (names s)))"
    if sp: "spinning s" and stopped: "\<not> spinning (step (Frame now) s)"
  proof -
    from sp have "pending s \<noteq> None"
      using run_wellFormed [of t0 es] unfolding s_def by (simp add: wellFormed_def)
    then obtain ss where ss: "pending s = Some ss" by blast
    have st: "step (Frame now) s = animate ss now (s\<lparr>pending := None\<rparr>)"
      using ss by simp
    have fin: "\<not> (now - start ss) / duration ss < 1"
      using stopped sp unfolding st by (simp add: animate_spinning split: if_splits)
    define r where "r = rotation (animate ss now (s\<lparr>pending := None\<rparr>))"
    have j0: "0 \<le> resolveIndex r (length (names s))"
      and j1: "resolveIndex r (length (names s)) < int (length (names s))"
      using n by (rule resolveIndex_range)+
    have "resultText (animate ss now (s\<lparr>pending := None\<rparr>))
        = js ''Winner: '' @ winnerAt (names s) (resolveIndex r (length (names s)))"
      using fin unfolding r_def by (simp add: animate_def finishSpin_def Let_def)
    then show ?thesis unfolding st using w [OF j0 j1] by (simp add: r_def)
  qed
  show ?thesis
    using i0 i1 w [OF i0 i1] m f g unfolding i_def s_def by simp
qed

theorem finishSpin_index_in_range_witness:
  "resultText (step (Frame 4200) (run [] [SpaceKey (1/2) 0 0 0]))
      = js ''Winner: ''
        @ names (run [] [SpaceKey (1/2) 0 0 0])
          ! nat (resolveIndex (rotation (step (Frame 4200) (run [] [SpaceKey (1/2) 0 0 0])))
                      (length (names (run [] [SpaceKey (1/2) 0 0 0]))))
   \<and> resultText (step (Frame 4200) (run [] [SpaceKey (1/2) 0 0 0])) = js ''Winner: Diana''"
proof -
  have h1: "spinning (run [] [SpaceKey (1/2) 0 0 0])"
    by (simp add: run_def initState_def spin_def startSpin_def defaultNames_def Let_def)
  have h2: "\<not> spinning (step (Frame 4200) (run [] [SpaceKey (1/2) 0 0 0]))"
    by (simp add: machine_defs defaultNames_def)
  have h3: "resultText (step (Frame 4200) (run [] [SpaceKey (1/2) 0 0 0])) = js ''Winner: Diana''"
    by (simp add: machine_defs number_defs defaultNames_def js_def)
  show ?thesis
    using h1 h2 h3 finishSpin_index_in_range [of 0 "[]" "[SpaceKey (1/2) 0 0 0]" 0 4200]
    by simp
qed

text \<open>
  Claim C10. \<open>finishSpin\<close> does not read its argument: two calls that differ only in
  \<open>winIndex\<close> give the same state, and two animation callbacks that differ only in the
  captured \<open>targetIndex\<close> show the same result text and leave the same rotation.
\<close>

theorem finishSpin_ignores_winIndex:
  "finishSpin w1 s = finishSpin w2 s
   \<and> resultText (animate (ss\<lparr>targetIndex := w1\<rparr>) now s)
     = resultText (animate (ss\<lparr>targetIndex := w2\<rparr>) now s)
   \<and> rotation (animate (ss\<lparr>targetIndex := w1\<rparr>) now s)
     = rotation (animate (ss\<lparr>targetIndex := w2\<rparr>) now s)"
  by (simp add: finishSpin_def animate_def Let_def)

end
